theory Spec2Isabelle
  imports Main
begin

section \<open>JavaScript values, objects and the heap\<close>

text \<open>
  The repository (\<^verbatim>\<open>src/injected-handler.ts\<close>, \<^verbatim>\<open>src/injected-middleware.ts\<close>) is glue
  between a dependency-injection container and a request pipeline. Its functions test
  \<^verbatim>\<open>typeof v === 'function'\<close>, read the property \<^verbatim>\<open>handle\<close>, bind a method to its
  instance and call the result. The model therefore has values with reference identity,
  a heap of objects, and function objects whose bodies live in a program table.

  A function value bound with \<^verbatim>\<open>f.bind(t)\<close> is the value \<open>BoundFn f t\<close>: its target and
  its bound \<^verbatim>\<open>this\<close>. Numbers carry an \<open>int\<close>; no arithmetic of the repository depends
  on them.
\<close>

type_synonym addr = nat

type_synonym fid = nat

datatype jsval =
    Undefined
  | Null
  | Boolean bool
  | Num int
  | Str string
  | Ref addr
  | BoundFn jsval jsval

text \<open>
  What a \<^verbatim>\<open>throw\<close> or a rejected promise carries: \<open>Error m\<close> is \<^verbatim>\<open>new Error(m)\<close>,
  \<open>TypeError\<close> is the engine's own error for a property read on \<^verbatim>\<open>null\<close> or
  \<^verbatim>\<open>undefined\<close> and for a call of a value that is not a function, \<open>ServiceNotFound n\<close>
  is the container's error for an identifier with no registration, and \<open>Thrown v\<close> is any
  value thrown by application code.
\<close>

datatype js_error =
    Error string
  | TypeError
  | ServiceNotFound string
  | Thrown jsval

text \<open>
  What the caller has of a call when control returns to the event loop: the call
  completed (\<open>Fulfilled\<close>), it threw or its promise rejected (\<open>Rejected e\<close>), or its
  promise is still pending (\<open>Pending\<close>): the function is suspended at an \<^verbatim>\<open>await\<close> of
  its own, and may stay so forever.
\<close>

datatype settlement =
    Fulfilled
  | Rejected js_error
  | Pending

text \<open>
  An object has a property table (the prototype chain flattened into it); a function
  object also has a body, named by its index in the program table.
\<close>

record jsobj =
  fn :: "fid option"
  props :: "string \<rightharpoonup> jsval"

type_synonym heap = "addr \<rightharpoonup> jsobj"

text \<open>
  The application's function bodies: given \<^verbatim>\<open>this\<close>, the arguments and the heap, a
  body is what the function does until its promise settles or the function first
  suspends; it returns which of the three happened and the heap it leaves. What a
  suspended function does once it is resumed is a body of its own, run by a later step
  of the host.
\<close>

type_synonym program = "fid \<Rightarrow> jsval \<Rightarrow> jsval list \<Rightarrow> heap \<Rightarrow> settlement \<times> heap"

text \<open>
  \<^verbatim>\<open>typeof v === 'function'\<close>. A bound function is a function; \<^verbatim>\<open>bind\<close> exists only
  on functions, so the test looks at the target.
\<close>

fun typeof_function :: "heap \<Rightarrow> jsval \<Rightarrow> bool" where
  "typeof_function h (Ref a) = (case h a of None \<Rightarrow> False | Some ob \<Rightarrow> fn ob \<noteq> None)"
| "typeof_function h (BoundFn f t) = typeof_function h f"
| "typeof_function h v = False"

text \<open>
  The property read \<^verbatim>\<open>v.p\<close>: a \<^verbatim>\<open>TypeError\<close> on \<^verbatim>\<open>null\<close> and \<^verbatim>\<open>undefined\<close>,
  \<^verbatim>\<open>undefined\<close> for a property that is absent.
\<close>

fun get_prop :: "heap \<Rightarrow> jsval \<Rightarrow> string \<Rightarrow> js_error + jsval" where
  "get_prop h Undefined p = Inl TypeError"
| "get_prop h Null p = Inl TypeError"
| "get_prop h (Ref a) p =
     Inr (case h a of
            None \<Rightarrow> Undefined
          | Some ob \<Rightarrow> (case props ob p of None \<Rightarrow> Undefined | Some v \<Rightarrow> v))"
| "get_prop h v p = Inr Undefined"

section \<open>The world: container, response listeners, trace\<close>

type_synonym injector = nat

text \<open>A scope object: the scope of an injector for the context with the given index.\<close>

datatype scope = Scope injector nat

text \<open>The listener \<^verbatim>\<open>scoped.endScope.bind(scoped)\<close>.\<close>

datatype callback = EndScopeBound scope

text \<open>
  The calls the glue makes on its collaborators, in the order it makes them, and the
  state of a produced handler's promise when the handler hands control back to the host
  (\<open>Returned\<close>).
\<close>

datatype event =
    CreateScope injector jsval scope
  | OnFinish jsval callback
  | GetService scope string
  | Call jsval jsval "jsval list"
  | EndScope scope
  | Returned settlement

record container =
  contexts :: "jsval list"
  services :: "nat \<Rightarrow> string \<rightharpoonup> jsval"

record world =
  heap :: heap
  containers :: "injector \<Rightarrow> container"
  listeners :: "jsval \<Rightarrow> callback list"
  trace :: "event list"

fun index_of :: "'a \<Rightarrow> 'a list \<Rightarrow> nat" where
  "index_of x [] = 0"
| "index_of x (y # ys) = (if x = y then 0 else Suc (index_of x ys))"

text \<open>
  Modelled from the spec: \<^verbatim>\<open>Injector.createScope\<close> of the package depinj-js, which is not
  in the repository. The spec's words: the container returns "the scope for this context",
  deciding "creation-vs-reuse by identity equality", and "the same scope is returned for
  repeated calls with an equal context within its lifetime". A container keeps the
  contexts it has a scope for, in creation order; the scope of a context is its position.
\<close>

definition createScope :: "injector \<Rightarrow> jsval \<Rightarrow> world \<Rightarrow> scope \<times> world" where
  "createScope injector ctx w =
     (let c = containers w injector;
          cs = (if ctx \<in> set (contexts c) then contexts c else contexts c @ [ctx]);
          scoped = Scope injector (index_of ctx cs)
      in (scoped,
          w\<lparr>containers := (containers w)(injector := c\<lparr>contexts := cs\<rparr>),
            trace := trace w @ [CreateScope injector ctx scoped]\<rparr>))"

text \<open>
  Modelled from the spec: \<^verbatim>\<open>Scope.getService\<close> of depinj-js, "getService(identifier:
  string) -> instance | throws ServiceNotFound", a lookup that leaves the heap as it is.
\<close>

definition getService :: "scope \<Rightarrow> string \<Rightarrow> world \<Rightarrow> (js_error + jsval) \<times> world" where
  "getService scoped name w =
     (case scoped of
        Scope injector k \<Rightarrow>
          (case services (containers w injector) k name of
             None \<Rightarrow> Inl (ServiceNotFound name)
           | Some v \<Rightarrow> Inr v,
           w\<lparr>trace := trace w @ [GetService scoped name]\<rparr>))"

text \<open>
  Modelled from the spec: \<^verbatim>\<open>Scope.endScope\<close> of depinj-js, "endScope() -> void". Each
  invocation is recorded in the trace.
\<close>

definition endScope :: "scope \<Rightarrow> world \<Rightarrow> world" where
  "endScope scoped w = w\<lparr>trace := trace w @ [EndScope scoped]\<rparr>"

text \<open>
  Modelled from the spec: \<^verbatim>\<open>Response.on('finish', callback)\<close> of the host pipeline, the
  registration of a completion listener. Listeners are kept per response in registration
  order; nothing is deduplicated.
\<close>

definition on_finish :: "jsval \<Rightarrow> callback \<Rightarrow> world \<Rightarrow> world" where
  "on_finish response cb w =
     w\<lparr>listeners := (listeners w)(response := listeners w response @ [cb]),
       trace := trace w @ [OnFinish response cb]\<rparr>"

fun run_callback :: "callback \<Rightarrow> world \<Rightarrow> world" where
  "run_callback (EndScopeBound scoped) w = endScope scoped w"

text \<open>
  Modelled from the spec: the response's completion signal firing. Every registered
  listener runs, in registration order, as \<^verbatim>\<open>finishResponse\<close> of the unit tests does
  (\<^verbatim>\<open>for (const currFinishEvent of events) currFinishEvent()\<close>).
\<close>

definition emit_finish :: "jsval \<Rightarrow> world \<Rightarrow> world" where
  "emit_finish response w = fold run_callback (listeners w response) w"

text \<open>
  The awaited call \<^verbatim>\<open>await f(args)\<close> with the given \<^verbatim>\<open>this\<close>. A bound function calls
  its target with its bound \<^verbatim>\<open>this\<close>; a value that is not a function cannot be called.
\<close>

fun call :: "program \<Rightarrow> jsval \<Rightarrow> jsval \<Rightarrow> jsval list \<Rightarrow> world \<Rightarrow> settlement \<times> world" where
  "call prog (Ref a) this args w =
     (case heap w a of
        None \<Rightarrow> (Rejected TypeError, w)
      | Some ob \<Rightarrow>
          (case fn ob of
             None \<Rightarrow> (Rejected TypeError, w)
           | Some f \<Rightarrow>
               (let (r, h') = prog f this args (heap w)
                in (r, w\<lparr>heap := h', trace := trace w @ [Call (Ref a) this args]\<rparr>))))"
| "call prog (BoundFn f t) this args w = call prog f t args w"
| "call prog v this args w = (Rejected TypeError, w)"

text \<open>The member call \<^verbatim>\<open>await obj.m(args)\<close>: \<^verbatim>\<open>this\<close> is the object.\<close>

definition call_method :: "program \<Rightarrow> jsval \<Rightarrow> string \<Rightarrow> jsval list \<Rightarrow> world \<Rightarrow> settlement \<times> world" where
  "call_method prog obj m args w =
     (case get_prop (heap w) obj m of
        Inl e \<Rightarrow> (Rejected e, w)
      | Inr f \<Rightarrow> call prog f obj args w)"

section \<open>injected-handler.ts\<close>

text \<open>The message of the error thrown for an unsupported handler type.\<close>

definition invalid_middleware_message :: "string \<Rightarrow> string" where
  "invalid_middleware_message middlewareName =
     ''The instance registered to '' @ [CHR 0x22] @ middlewareName @ [CHR 0x22] @
     '' is not a valid middleware. It must either be a handler function or contain a handle method.''"

text \<open>
  \<^verbatim>\<open>getHandler(injector, middlewareName, request, response)\<close>: a \<^verbatim>\<open>throw\<close> is \<open>Inl\<close>.
\<close>

definition getHandler :: "injector \<Rightarrow> string \<Rightarrow> jsval \<Rightarrow> jsval \<Rightarrow> world \<Rightarrow> (js_error + jsval) \<times> world" where
  "getHandler injector middlewareName request response w =
     (let (scoped, w1) = createScope injector request w;
          w2 = on_finish response (EndScopeBound scoped) w1;
          (r, w3) = getService scoped middlewareName w2
      in case r of
           Inl e \<Rightarrow> (Inl e, w3)
         | Inr scopedHandler \<Rightarrow>
             if typeof_function (heap w3) scopedHandler then (Inr scopedHandler, w3)
             else (case get_prop (heap w3) scopedHandler ''handle'' of
                     Inl e \<Rightarrow> (Inl e, w3)
                   | Inr h \<Rightarrow>
                       if typeof_function (heap w3) h then (Inr (BoundFn h scopedHandler), w3)
                       else (Inl (Error (invalid_middleware_message middlewareName)), w3)))"

text \<open>
  The handler returned by \<^verbatim>\<open>toInjectedHandler(injector, middlewareName)\<close>, applied to
  \<^verbatim>\<open>(req, res, next)\<close>. It is an \<^verbatim>\<open>async\<close> function: a throw of \<open>getHandler\<close> rejects
  its promise.
\<close>

definition toInjectedHandler ::
  "program \<Rightarrow> injector \<Rightarrow> string \<Rightarrow> jsval \<Rightarrow> jsval \<Rightarrow> jsval \<Rightarrow> world \<Rightarrow> settlement \<times> world" where
  "toInjectedHandler prog injector middlewareName req res nxt w =
     (case getHandler injector middlewareName req res w of
        (Inl e, w') \<Rightarrow> (Rejected e, w')
      | (Inr instantiatedHandler, w') \<Rightarrow> call prog instantiatedHandler Undefined [req, res, nxt] w')"

text \<open>
  The handler returned by \<^verbatim>\<open>toInjectedErrorHandler(injector, middlewareName)\<close>, applied to
  \<^verbatim>\<open>(err, req, res, next)\<close>.
\<close>

definition toInjectedErrorHandler ::
  "program \<Rightarrow> injector \<Rightarrow> string \<Rightarrow> jsval \<Rightarrow> jsval \<Rightarrow> jsval \<Rightarrow> jsval \<Rightarrow> world \<Rightarrow> settlement \<times> world" where
  "toInjectedErrorHandler prog injector middlewareName err req res nxt w =
     (case getHandler injector middlewareName req res w of
        (Inl e, w') \<Rightarrow> (Rejected e, w')
      | (Inr instantiatedHandler, w') \<Rightarrow> call prog instantiatedHandler Undefined [err, req, res, nxt] w')"

section \<open>injected-middleware.ts\<close>

text \<open>
  The argument \<^verbatim>\<open>DependentType\<close>: a string, or a class, of which the code reads only
  the property \<^verbatim>\<open>name\<close>.
\<close>

datatype dependent_type = IsString string | IsClass string

fun serviceName :: "dependent_type \<Rightarrow> string" where
  "serviceName (IsString s) = s"
| "serviceName (IsClass class_name) = class_name"

text \<open>
  The handler returned by \<^verbatim>\<open>toInjectedMiddleware(injector, DependentType)\<close>, applied to
  \<^verbatim>\<open>(req, res, next)\<close>.
\<close>

definition toInjectedMiddleware ::
  "program \<Rightarrow> injector \<Rightarrow> dependent_type \<Rightarrow> jsval \<Rightarrow> jsval \<Rightarrow> jsval \<Rightarrow> world \<Rightarrow> settlement \<times> world" where
  "toInjectedMiddleware prog injector DependentType req res nxt w =
     (let (scoped, w1) = createScope injector req w;
          w2 = on_finish res (EndScopeBound scoped) w1;
          (r, w3) = getService scoped (serviceName DependentType) w2
      in case r of
           Inl e \<Rightarrow> (Rejected e, w3)
         | Inr scopedHandler \<Rightarrow> call_method prog scopedHandler ''handle'' [req, res, nxt] w3)"

section \<open>The host pipeline\<close>

text \<open>
  The host invokes the handlers the three factories produced, fires the completion
  signal of a response, and resumes what was left suspended. A run is a sequence of such
  steps. An invocation step runs the produced handler until control is back with the
  host: the promise of the handler has settled, or the handler is suspended at its
  \<^verbatim>\<open>await\<close> because the function it called is suspended (\<open>Pending\<close>). The rest of a
  suspended function runs in a later step (\<open>Continue\<close>, a call of its continuation); any
  other step, the completion signal of the same response included, can come in between.
\<close>

datatype invocation =
    Standard injector string jsval jsval jsval
  | OnError injector string jsval jsval jsval jsval
  | TypeDirected injector dependent_type jsval jsval jsval

datatype host_event =
    Invoke invocation
  | Finish jsval
  | Continue jsval jsval "jsval list"

fun invoke :: "program \<Rightarrow> invocation \<Rightarrow> world \<Rightarrow> settlement \<times> world" where
  "invoke prog (Standard injector name req res nxt) w = toInjectedHandler prog injector name req res nxt w"
| "invoke prog (OnError injector name err req res nxt) w = toInjectedErrorHandler prog injector name err req res nxt w"
| "invoke prog (TypeDirected injector dt req res nxt) w = toInjectedMiddleware prog injector dt req res nxt w"

fun injector_of :: "invocation \<Rightarrow> injector" where
  "injector_of (Standard injector name req res nxt) = injector"
| "injector_of (OnError injector name err req res nxt) = injector"
| "injector_of (TypeDirected injector dt req res nxt) = injector"

fun request_of :: "invocation \<Rightarrow> jsval" where
  "request_of (Standard injector name req res nxt) = req"
| "request_of (OnError injector name err req res nxt) = req"
| "request_of (TypeDirected injector dt req res nxt) = req"

fun response_of :: "invocation \<Rightarrow> jsval" where
  "response_of (Standard injector name req res nxt) = res"
| "response_of (OnError injector name err req res nxt) = res"
| "response_of (TypeDirected injector dt req res nxt) = res"

fun step :: "program \<Rightarrow> host_event \<Rightarrow> world \<Rightarrow> world" where
  "step prog (Invoke i) w =
     (let (r, w') = invoke prog i w in w'\<lparr>trace := trace w' @ [Returned r]\<rparr>)"
| "step prog (Finish response) w = emit_finish response w"
| "step prog (Continue f this args) w = snd (call prog f this args w)"

definition run :: "program \<Rightarrow> host_event list \<Rightarrow> world \<Rightarrow> world" where
  "run prog evs w = fold (step prog) evs w"

section \<open>Notions used to state the properties\<close>

text \<open>
  The first two statements of \<open>getHandler\<close> and of the handler of \<open>toInjectedMiddleware\<close>
  (the spec's Scope Binder): obtain the scope of the request, register its teardown on
  the response.
\<close>

definition bind_scope :: "injector \<Rightarrow> jsval \<Rightarrow> jsval \<Rightarrow> world \<Rightarrow> scope \<times> world" where
  "bind_scope injector request response w =
     (let (scoped, w1) = createScope injector request w
      in (scoped, on_finish response (EndScopeBound scoped) w1))"

text \<open>
  The third statement: the lookup of the name in the scope just bound. Its result is
  the raw instance (or the container's error) and the world in which the instance is
  classified and called.
\<close>

definition resolved :: "injector \<Rightarrow> string \<Rightarrow> jsval \<Rightarrow> jsval \<Rightarrow> world \<Rightarrow> (js_error + jsval) \<times> world" where
  "resolved injector name request response w =
     getService (fst (bind_scope injector request response w)) name
       (snd (bind_scope injector request response w))"

text \<open>An instance that exposes a callable member named \<^verbatim>\<open>handle\<close>.\<close>

definition exposes_handle :: "heap \<Rightarrow> jsval \<Rightarrow> bool" where
  "exposes_handle h v =
     (case get_prop h v ''handle'' of Inl e \<Rightarrow> False | Inr f \<Rightarrow> typeof_function h f)"

fun is_Call :: "event \<Rightarrow> bool" where
  "is_Call (Call f this args) = True"
| "is_Call e = False"

fun is_EndScope :: "event \<Rightarrow> bool" where
  "is_EndScope (EndScope scoped) = True"
| "is_EndScope e = False"

fun is_Finish :: "host_event \<Rightarrow> bool" where
  "is_Finish (Finish response) = True"
| "is_Finish ev = False"

text \<open>The invocations of a run, in order.\<close>

fun invoked :: "host_event list \<Rightarrow> invocation list" where
  "invoked [] = []"
| "invoked (Invoke i # evs) = i # invoked evs"
| "invoked (ev # evs) = invoked evs"

text \<open>What a listener does when the completion signal runs it.\<close>

fun callback_event :: "callback \<Rightarrow> event" where
  "callback_event (EndScopeBound scoped) = EndScope scoped"

text \<open>
  A recorded \<open>CreateScope\<close> agrees with the container: the context has a scope, and the
  scope recorded is the one the container holds for it.
\<close>

fun scope_recorded :: "(injector \<Rightarrow> container) \<Rightarrow> event \<Rightarrow> bool" where
  "scope_recorded cs (CreateScope i ctx scoped) =
     (ctx \<in> set (contexts (cs i)) \<and> scoped = Scope i (index_of ctx (contexts (cs i))))"
| "scope_recorded cs e = True"

definition scopes_recorded :: "world \<Rightarrow> bool" where
  "scopes_recorded w = list_all (scope_recorded (containers w)) (trace w)"

fun name_of :: "invocation \<Rightarrow> string" where
  "name_of (Standard injector name req res nxt) = name"
| "name_of (OnError injector name err req res nxt) = name"
| "name_of (TypeDirected injector dt req res nxt) = serviceName dt"

section \<open>A concrete application\<close>

text \<open>
  An application in the style of the unit tests: a middleware object whose \<^verbatim>\<open>handle\<close>
  increments a counter kept on the instance, a plain handler function, an object with no
  \<^verbatim>\<open>handle\<close>, a registration that yields \<^verbatim>\<open>null\<close>, a handler that throws, and a
  handler that suspends (object 10) with its continuation (object 11).
  Body 1 increments \<^verbatim>\<open>this.track\<close>, body 2 throws, body 4 suspends, every other body
  does nothing.
\<close>

definition example_prog :: program where
  "example_prog f this args h =
     (if f = 1 then
        (case this of
           Ref a \<Rightarrow>
             (case h a of
                None \<Rightarrow> (Rejected TypeError, h)
              | Some ob \<Rightarrow>
                  (case props ob ''track'' of
                     Some (Num n) \<Rightarrow>
                       (Fulfilled, h(a \<mapsto> ob\<lparr>props := (props ob)(''track'' \<mapsto> Num (n + 1))\<rparr>))
                   | _ \<Rightarrow> (Rejected TypeError, h)))
         | _ \<Rightarrow> (Rejected TypeError, h))
      else if f = 2 then (Rejected (Error ''boom''), h)
      else if f = 4 then (Pending, h)
      else (Fulfilled, h))"

definition example_heap :: heap where
  "example_heap =
     [0 \<mapsto> \<lparr>fn = None, props = Map.empty\<rparr>,
      1 \<mapsto> \<lparr>fn = None, props = Map.empty\<rparr>,
      2 \<mapsto> \<lparr>fn = None, props = Map.empty\<rparr>,
      3 \<mapsto> \<lparr>fn = Some 0, props = Map.empty\<rparr>,
      4 \<mapsto> \<lparr>fn = Some 1, props = Map.empty\<rparr>,
      5 \<mapsto> \<lparr>fn = None, props = [''handle'' \<mapsto> Ref 4, ''track'' \<mapsto> Num 0]\<rparr>,
      6 \<mapsto> \<lparr>fn = Some 3, props = Map.empty\<rparr>,
      7 \<mapsto> \<lparr>fn = None, props = Map.empty\<rparr>,
      8 \<mapsto> \<lparr>fn = Some 2, props = Map.empty\<rparr>,
      9 \<mapsto> \<lparr>fn = None, props = Map.empty\<rparr>,
      10 \<mapsto> \<lparr>fn = Some 4, props = Map.empty\<rparr>,
      11 \<mapsto> \<lparr>fn = Some 5, props = Map.empty\<rparr>]"

definition example_services :: "nat \<Rightarrow> string \<rightharpoonup> jsval" where
  "example_services k =
     [''Counting'' \<mapsto> Ref 5, ''Plain'' \<mapsto> Ref 6, ''Empty'' \<mapsto> Ref 7,
      ''Broken'' \<mapsto> Null, ''Failing'' \<mapsto> Ref 8, ''Slow'' \<mapsto> Ref 10]"

definition example_world :: world where
  "example_world =
     \<lparr>heap = example_heap,
      containers = (\<lambda>i. \<lparr>contexts = [], services = example_services\<rparr>),
      listeners = (\<lambda>r. []),
      trace = []\<rparr>"

text \<open>
  Request 1 is object 0 and its response object 2; request 2 is object 1 and its response
  object 9; object 3 is the continuation. Object 7, which has no \<^verbatim>\<open>handle\<close>, also
  stands for the error handed to the error adapter.
\<close>

definition example_invocation :: invocation where
  "example_invocation = Standard 0 ''Counting'' (Ref 0) (Ref 2) (Ref 3)"

definition example_invocation2 :: invocation where
  "example_invocation2 = Standard 0 ''Plain'' (Ref 1) (Ref 9) (Ref 3)"

definition example_slow_invocation :: invocation where
  "example_slow_invocation = Standard 0 ''Slow'' (Ref 0) (Ref 2) (Ref 3)"

section \<open>Basic facts\<close>

lemma index_of_append: "x \<in> set xs \<Longrightarrow> index_of x (xs @ ys) = index_of x xs"
  by (induction xs) auto

lemma nth_index_of: "x \<in> set xs \<Longrightarrow> xs ! index_of x xs = x"
  by (induction xs) auto

lemma index_of_eq_iff:
  "x \<in> set xs \<Longrightarrow> y \<in> set xs \<Longrightarrow> index_of x xs = index_of y xs \<longleftrightarrow> x = y"
  by (metis nth_index_of)

lemma createScope_heap [simp]: "heap (snd (createScope i c w)) = heap w"
  by (simp add: createScope_def Let_def)

lemma createScope_listeners [simp]: "listeners (snd (createScope i c w)) = listeners w"
  by (simp add: createScope_def Let_def)

lemma createScope_trace [simp]:
  "trace (snd (createScope i c w)) = trace w @ [CreateScope i c (fst (createScope i c w))]"
  by (simp add: createScope_def Let_def)

lemma createScope_services [simp]:
  "services (containers (snd (createScope i c w)) j) = services (containers w j)"
  by (simp add: createScope_def Let_def)

lemma createScope_contexts:
  "contexts (containers (snd (createScope i c w)) j) =
     (if j = i \<and> c \<notin> set (contexts (containers w i)) then contexts (containers w i) @ [c]
      else contexts (containers w j))"
  by (simp add: createScope_def Let_def)

lemma createScope_fst:
  "fst (createScope i c w) = Scope i (index_of c (contexts (containers (snd (createScope i c w)) i)))"
  by (simp add: createScope_def Let_def)

lemma createScope_mem: "c \<in> set (contexts (containers (snd (createScope i c w)) i))"
  by (simp add: createScope_contexts)

lemma createScope_again:
  "c \<in> set (contexts (containers w i)) \<Longrightarrow>
   fst (createScope i c w) = Scope i (index_of c (contexts (containers w i)))"
  by (simp add: createScope_def Let_def)

lemma bind_scope_fst [simp]: "fst (bind_scope i c r w) = fst (createScope i c w)"
  by (simp add: bind_scope_def split: prod.splits)

lemma bind_scope_snd:
  "snd (bind_scope i c r w) = on_finish r (EndScopeBound (fst (createScope i c w))) (snd (createScope i c w))"
  by (simp add: bind_scope_def split: prod.splits)

lemma getService_snd [simp]:
  "snd (getService s n w) = w\<lparr>trace := trace w @ [GetService s n]\<rparr>"
  by (simp add: getService_def split: scope.splits)

lemma unchanged_world:
  "\<exists>h' t. list_all is_Call t \<and> w = w\<lparr>heap := h', trace := trace w @ t\<rparr>"
  by (rule exI [of _ "heap w"], rule exI [of _ "[]"]) simp

lemma call_world:
  "\<exists>h' t. list_all is_Call t \<and> snd (call prog f this args w) = w\<lparr>heap := h', trace := trace w @ t\<rparr>"
proof (induction prog f this args w rule: call.induct)
  case (1 prog a this args w)
  show ?case
  proof (cases "heap w a")
    case None
    then show ?thesis by (simp add: unchanged_world)
  next
    case (Some ob)
    show ?thesis
    proof (cases "fn ob")
      case None
      with Some show ?thesis by (simp add: unchanged_world)
    next
      case (Some f)
      with \<open>heap w a = Some ob\<close>
      have "snd (call prog (Ref a) this args w) =
            w\<lparr>heap := snd (prog f this args (heap w)), trace := trace w @ [Call (Ref a) this args]\<rparr>"
        by (simp split: prod.splits)
      moreover have "list_all is_Call [Call (Ref a) this args]" by simp
      ultimately show ?thesis by blast
    qed
  qed
next
  case (2 prog f t this args w)
  then show ?case by simp
qed (simp_all add: unchanged_world)

lemma call_method_world:
  "\<exists>h' t. list_all is_Call t \<and> snd (call_method prog ob m args w) = w\<lparr>heap := h', trace := trace w @ t\<rparr>"
  by (cases "get_prop (heap w) ob m") (simp_all add: call_method_def unchanged_world call_world)

lemma on_finish_fields [simp]:
  "heap (on_finish r cb w) = heap w"
  "containers (on_finish r cb w) = containers w"
  "listeners (on_finish r cb w) = (listeners w)(r := listeners w r @ [cb])"
  "trace (on_finish r cb w) = trace w @ [OnFinish r cb]"
  by (simp_all add: on_finish_def)

lemma getService_fst:
  "fst (getService (Scope i k) n w) =
     (case services (containers w i) k n of None \<Rightarrow> Inl (ServiceNotFound n) | Some v \<Rightarrow> Inr v)"
  by (simp add: getService_def)

lemma getHandler_alt:
  "getHandler i n req res w =
     (case fst (resolved i n req res w) of
        Inl e \<Rightarrow> Inl e
      | Inr v \<Rightarrow>
          if typeof_function (heap w) v then Inr v
          else (case get_prop (heap w) v ''handle'' of
                  Inl e \<Rightarrow> Inl e
                | Inr h \<Rightarrow>
                    if typeof_function (heap w) h then Inr (BoundFn h v)
                    else Inl (Error (invalid_middleware_message n))),
      snd (resolved i n req res w))"
  by (simp add: getHandler_def resolved_def bind_scope_def Let_def case_prod_beta split: sum.splits)

lemma getHandler_snd:
  "snd (getHandler i n req res w) = snd (resolved i n req res w)"
  by (simp add: getHandler_alt)

lemma toInjectedHandler_world:
  "\<exists>h' t. list_all is_Call t \<and>
     snd (toInjectedHandler prog i n req res nxt w) =
       (snd (getHandler i n req res w))\<lparr>heap := h', trace := trace (snd (getHandler i n req res w)) @ t\<rparr>"
  by (cases "getHandler i n req res w" ; cases "fst (getHandler i n req res w)")
     (simp_all add: toInjectedHandler_def unchanged_world call_world)

lemma toInjectedErrorHandler_world:
  "\<exists>h' t. list_all is_Call t \<and>
     snd (toInjectedErrorHandler prog i n err req res nxt w) =
       (snd (getHandler i n req res w))\<lparr>heap := h', trace := trace (snd (getHandler i n req res w)) @ t\<rparr>"
  by (cases "getHandler i n req res w" ; cases "fst (getHandler i n req res w)")
     (simp_all add: toInjectedErrorHandler_def unchanged_world call_world)

lemma toInjectedMiddleware_world:
  "\<exists>h' t. list_all is_Call t \<and>
     snd (toInjectedMiddleware prog i dt req res nxt w) =
       (snd (getHandler i (serviceName dt) req res w))
         \<lparr>heap := h', trace := trace (snd (getHandler i (serviceName dt) req res w)) @ t\<rparr>"
proof -
  let ?g = "resolved i (serviceName dt) req res w"
  have eq: "toInjectedMiddleware prog i dt req res nxt w =
        (case fst ?g of Inl e \<Rightarrow> (Rejected e, snd ?g)
         | Inr v \<Rightarrow> call_method prog v ''handle'' [req, res, nxt] (snd ?g))"
    by (simp add: toInjectedMiddleware_def resolved_def bind_scope_def Let_def case_prod_beta split: sum.splits)
  show ?thesis
    unfolding eq getHandler_snd
    by (cases "fst ?g") (simp_all add: unchanged_world call_method_world)
qed

lemma invoke_world:
  "\<exists>h' t. list_all is_Call t \<and>
     snd (invoke prog i w) =
       (snd (getHandler (injector_of i) (name_of i) (request_of i) (response_of i) w))
         \<lparr>heap := h',
          trace := trace (snd (getHandler (injector_of i) (name_of i) (request_of i) (response_of i) w)) @ t\<rparr>"
  by (cases i) (simp_all add: toInjectedHandler_world toInjectedErrorHandler_world toInjectedMiddleware_world)

lemma resolved_fields [simp]:
  "heap (snd (resolved i n req res w)) = heap w"
  "containers (snd (resolved i n req res w)) = containers (snd (createScope i req w))"
  "listeners (snd (resolved i n req res w)) =
     (listeners w)(res := listeners w res @ [EndScopeBound (fst (createScope i req w))])"
  "trace (snd (resolved i n req res w)) =
     trace w @ [CreateScope i req (fst (createScope i req w)),
                OnFinish res (EndScopeBound (fst (createScope i req w))),
                GetService (fst (createScope i req w)) n]"
  by (simp_all add: resolved_def bind_scope_snd)

lemma resolved_fst:
  "fst (resolved i n req res w) =
     (case services (containers w i)
             (index_of req (contexts (containers (snd (createScope i req w)) i))) n of
        None \<Rightarrow> Inl (ServiceNotFound n)
      | Some v \<Rightarrow> Inr v)"
proof -
  have "fst (resolved i n req res w) =
        fst (getService (Scope i (index_of req (contexts (containers (snd (createScope i req w)) i)))) n
              (snd (bind_scope i req res w)))"
    using createScope_fst [of i req w] by (simp add: resolved_def)
  then show ?thesis
    by (simp add: getService_fst bind_scope_snd)
qed

lemma toInjectedHandler_alt:
  "toInjectedHandler prog i n req res nxt w =
     (case fst (getHandler i n req res w) of
        Inl e \<Rightarrow> (Rejected e, snd (resolved i n req res w))
      | Inr h \<Rightarrow> call prog h Undefined [req, res, nxt] (snd (resolved i n req res w)))"
  by (simp add: toInjectedHandler_def getHandler_alt split: sum.splits)

lemma toInjectedErrorHandler_alt:
  "toInjectedErrorHandler prog i n err req res nxt w =
     (case fst (getHandler i n req res w) of
        Inl e \<Rightarrow> (Rejected e, snd (resolved i n req res w))
      | Inr h \<Rightarrow> call prog h Undefined [err, req, res, nxt] (snd (resolved i n req res w)))"
  by (simp add: toInjectedErrorHandler_def getHandler_alt split: sum.splits)

lemma toInjectedMiddleware_alt:
  "toInjectedMiddleware prog i dt req res nxt w =
     (case fst (resolved i (serviceName dt) req res w) of
        Inl e \<Rightarrow> (Rejected e, snd (resolved i (serviceName dt) req res w))
      | Inr v \<Rightarrow> call_method prog v ''handle'' [req, res, nxt] (snd (resolved i (serviceName dt) req res w)))"
  by (simp add: toInjectedMiddleware_def resolved_def bind_scope_def Let_def case_prod_beta split: sum.splits)

lemma getHandler_callable:
  assumes "getHandler i n req res w = (Inr h, w')"
  shows "typeof_function (heap w') h"
proof -
  from assms have s: "snd (resolved i n req res w) = w'"
    by (simp add: getHandler_alt)
  then have "heap w' = heap w" by (metis resolved_fields(1))
  with assms show ?thesis
    by (auto simp: getHandler_alt split: sum.splits if_splits)
qed

lemma call_enters_body:
  "typeof_function (heap w) f \<Longrightarrow>
   \<exists>a g t. \<forall>args. call prog f this args w =
      (fst (prog g t args (heap w)),
       w\<lparr>heap := snd (prog g t args (heap w)), trace := trace w @ [Call (Ref a) t args]\<rparr>)"
proof (induction f arbitrary: this)
  case (Ref a)
  then obtain ob g where "heap w a = Some ob" "fn ob = Some g"
    by (auto split: option.splits)
  then have "\<forall>args. call prog (Ref a) this args w =
      (fst (prog g this args (heap w)),
       w\<lparr>heap := snd (prog g this args (heap w)), trace := trace w @ [Call (Ref a) this args]\<rparr>)"
    by (simp add: case_prod_beta)
  then show ?case by blast
next
  case (BoundFn f t)
  then show ?case by simp
qed simp_all

lemma fold_run_callback:
  "fold run_callback cbs w = w\<lparr>trace := trace w @ map callback_event cbs\<rparr>"
proof (induction cbs arbitrary: w)
  case Nil
  show ?case by simp
next
  case (Cons cb cbs)
  show ?case
    by (cases cb) (simp add: Cons.IH endScope_def)
qed

lemma emit_finish_eq:
  "emit_finish r w = w\<lparr>trace := trace w @ map callback_event (listeners w r)\<rparr>"
  by (simp add: emit_finish_def fold_run_callback)

lemma example_resolved:
  "fst (resolved 0 n (Ref 0) (Ref 2) example_world) =
     (case example_services 0 n of None \<Rightarrow> Inl (ServiceNotFound n) | Some v \<Rightarrow> Inr v)"
  by (simp add: resolved_fst createScope_contexts example_world_def)

lemma example_typeof:
  "typeof_function example_heap (Ref 6)" "\<not> typeof_function example_heap (Ref 5)"
  "typeof_function example_heap (Ref 4)" "\<not> typeof_function example_heap (Ref 7)"
  "typeof_function example_heap (Ref 8)"
  by (simp_all add: example_heap_def)

lemma getHandler_handle_bearing:
  assumes "resolved injector name req res w = (Inr v, w3)"
    and "\<not> typeof_function (heap w3) v"
    and "exposes_handle (heap w3) v"
  shows "\<exists>h. get_prop (heap w3) v ''handle'' = Inr h \<and> typeof_function (heap w3) h \<and>
             getHandler injector name req res w = (Inr (BoundFn h v), w3)"
proof -
  from assms(1) have r: "fst (resolved injector name req res w) = Inr v"
    and s: "snd (resolved injector name req res w) = w3"
    by simp_all
  from s have h: "heap w3 = heap w" by (metis resolved_fields(1))
  from assms(3) obtain f where f: "get_prop (heap w3) v ''handle'' = Inr f"
    and tf: "typeof_function (heap w3) f"
    by (auto simp: exposes_handle_def split: sum.splits)
  from assms(2) r s h f tf
  have "getHandler injector name req res w = (Inr (BoundFn f v), w3)"
    by (simp add: getHandler_alt)
  with f tf show ?thesis by blast
qed

lemma toInjectedHandler_handle_bearing:
  assumes "resolved injector name req res w = (Inr v, w3)"
    and "\<not> typeof_function (heap w3) v"
    and "exposes_handle (heap w3) v"
  shows "toInjectedHandler prog injector name req res nxt w =
         call_method prog v ''handle'' [req, res, nxt] w3"
proof -
  from getHandler_handle_bearing [OF assms] obtain h
    where "get_prop (heap w3) v ''handle'' = Inr h"
      and "getHandler injector name req res w = (Inr (BoundFn h v), w3)"
    by blast
  then show ?thesis
    by (simp add: toInjectedHandler_def call_method_def)
qed

section \<open>Callable instances\<close>



section \<open>Instances with a handle method\<close>

text \<open>
  Claim C3. When the instance is not callable and exposes a callable member \<^verbatim>\<open>handle\<close>,
  \<open>getHandler\<close> returns that member bound to the instance, and invoking the handler of
  \<open>toInjectedHandler\<close> is the member call \<^verbatim>\<open>instance.handle(req, res, next)\<close>, on the heap
  as the previous invocations left it (binding and lookup do not touch the heap). Where
  \<^verbatim>\<open>handle\<close> is a function object, its body runs with \<^verbatim>\<open>this\<close> the instance, and the
  heap it leaves is the heap the invocation leaves: what one invocation writes to the
  instance, the next one reads.
\<close>

theorem method_normalization:
  assumes "resolved injector name req res w = (Inr v, w3)"
    and "\<not> typeof_function (heap w3) v"
    and "exposes_handle (heap w3) v"
  shows "(\<exists>h. get_prop (heap w3) v ''handle'' = Inr h \<and>
              getHandler injector name req res w = (Inr (BoundFn h v), w3)) \<and>
         toInjectedHandler prog injector name req res nxt w =
           call_method prog v ''handle'' [req, res, nxt] w3 \<and>
         heap w3 = heap w \<and>
         (\<forall>a ob g. get_prop (heap w) v ''handle'' = Inr (Ref a) \<and> heap w a = Some ob \<and> fn ob = Some g \<longrightarrow>
            fst (toInjectedHandler prog injector name req res nxt w) =
              fst (prog g v [req, res, nxt] (heap w)) \<and>
            heap (snd (toInjectedHandler prog injector name req res nxt w)) =
              snd (prog g v [req, res, nxt] (heap w)))"
proof -
  from assms(1) have "snd (resolved injector name req res w) = w3" by simp
  then have h: "heap w3 = heap w" by (metis resolved_fields(1))
  from getHandler_handle_bearing [OF assms] obtain f
    where f: "get_prop (heap w3) v ''handle'' = Inr f"
      and g: "getHandler injector name req res w = (Inr (BoundFn f v), w3)"
    by blast
  have t: "toInjectedHandler prog injector name req res nxt w =
           call_method prog v ''handle'' [req, res, nxt] w3"
    by (rule toInjectedHandler_handle_bearing [OF assms])
  have "fst (toInjectedHandler prog injector name req res nxt w) =
              fst (prog g v [req, res, nxt] (heap w)) \<and>
            heap (snd (toInjectedHandler prog injector name req res nxt w)) =
              snd (prog g v [req, res, nxt] (heap w))"
    if "get_prop (heap w) v ''handle'' = Inr (Ref a)" "heap w a = Some ob" "fn ob = Some g"
    for a ob g
    using that h by (simp add: t call_method_def case_prod_beta)
  with f g t h show ?thesis by blast
qed

theorem method_normalization_witness:
  "resolved 0 ''Counting'' (Ref 0) (Ref 2) example_world =
     (Inr (Ref 5), snd (resolved 0 ''Counting'' (Ref 0) (Ref 2) example_world)) \<and>
   \<not> typeof_function (heap (snd (resolved 0 ''Counting'' (Ref 0) (Ref 2) example_world))) (Ref 5) \<and>
   exposes_handle (heap (snd (resolved 0 ''Counting'' (Ref 0) (Ref 2) example_world))) (Ref 5) \<and>
   toInjectedHandler example_prog 0 ''Counting'' (Ref 0) (Ref 2) (Ref 3) example_world =
     call_method example_prog (Ref 5) ''handle'' [Ref 0, Ref 2, Ref 3]
       (snd (resolved 0 ''Counting'' (Ref 0) (Ref 2) example_world)) \<and>
   get_prop (heap example_world) (Ref 5) ''handle'' = Inr (Ref 4) \<and>
   heap example_world 4 = Some \<lparr>fn = Some 1, props = Map.empty\<rparr> \<and>
   fst (toInjectedHandler example_prog 0 ''Counting'' (Ref 0) (Ref 2) (Ref 3) example_world) =
     fst (example_prog 1 (Ref 5) [Ref 0, Ref 2, Ref 3] (heap example_world)) \<and>
   heap (snd (toInjectedHandler example_prog 0 ''Counting'' (Ref 0) (Ref 2) (Ref 3) example_world)) =
     snd (example_prog 1 (Ref 5) [Ref 0, Ref 2, Ref 3] (heap example_world))"
proof -
  have a: "resolved 0 ''Counting'' (Ref 0) (Ref 2) example_world =
     (Inr (Ref 5), snd (resolved 0 ''Counting'' (Ref 0) (Ref 2) example_world))"
    by (simp add: prod_eq_iff example_resolved example_services_def)
  have b: "\<not> typeof_function (heap (snd (resolved 0 ''Counting'' (Ref 0) (Ref 2) example_world))) (Ref 5)"
    by (simp add: example_world_def) (simp add: example_heap_def)
  have c: "exposes_handle (heap (snd (resolved 0 ''Counting'' (Ref 0) (Ref 2) example_world))) (Ref 5)"
    by (simp add: exposes_handle_def example_world_def) (simp add: example_heap_def)
  have d: "get_prop (heap example_world) (Ref 5) ''handle'' = Inr (Ref 4)"
    by (simp add: example_world_def) (simp add: example_heap_def)
  have e: "heap example_world 4 = Some \<lparr>fn = Some 1, props = Map.empty\<rparr>"
    by (simp add: example_world_def) (simp add: example_heap_def)
  have f: "fn \<lparr>fn = Some 1, props = Map.empty\<rparr> = Some (1::nat)" by simp
  from method_normalization [OF a b c, of example_prog "Ref 3"] a b c d e f
  show ?thesis by blast
qed

text \<open>
  The scenario of the unit tests: two invocations for one request increment the same
  counter.
\<close>

lemma example_counter_shared:
  "get_prop
     (heap (run example_prog [Invoke example_invocation, Invoke example_invocation] example_world))
     (Ref 5) ''track'' = Inr (Num 2)"
  by (simp add: run_def example_invocation_def toInjectedHandler_def getHandler_def
      createScope_def on_finish_def getService_def Let_def case_prod_beta
      example_world_def example_services_def example_heap_def example_prog_def)

lemma example_world_heap: "heap example_world = example_heap"
  by (simp add: example_world_def)

section \<open>Instances of neither shape\<close>

text \<open>
  For an instance that is not \<^verbatim>\<open>null\<close> or \<^verbatim>\<open>undefined\<close>, is not callable and exposes
  no callable \<^verbatim>\<open>handle\<close>, \<open>getHandler\<close> throws the error whose message names the
  identifier; the handler of \<open>toInjectedHandler\<close> rejects with it, and nothing was called.
\<close>

lemma invalid_shape_error:
  assumes "resolved injector name req res w = (Inr v, w3)"
    and "v \<noteq> Null" and "v \<noteq> Undefined"
    and "\<not> typeof_function (heap w3) v"
    and "\<not> exposes_handle (heap w3) v"
  shows "getHandler injector name req res w = (Inl (Error (invalid_middleware_message name)), w3) \<and>
         toInjectedHandler prog injector name req res nxt w =
           (Rejected (Error (invalid_middleware_message name)), w3) \<and>
         \<not> list_ex is_Call (drop (length (trace w)) (trace w3))"
proof -
  from assms(1) have r: "fst (resolved injector name req res w) = Inr v"
    and s: "snd (resolved injector name req res w) = w3"
    by simp_all
  from s have h: "heap w3 = heap w" by (metis resolved_fields(1))
  from assms(2,3) obtain f where f: "get_prop (heap w) v ''handle'' = Inr f"
    by (cases v) simp_all
  with assms(5) h have nf: "\<not> typeof_function (heap w) f"
    by (simp add: exposes_handle_def)
  from r s h f nf assms(4)
  have g: "getHandler injector name req res w = (Inl (Error (invalid_middleware_message name)), w3)"
    by (simp add: getHandler_alt)
  then have t: "toInjectedHandler prog injector name req res nxt w =
           (Rejected (Error (invalid_middleware_message name)), w3)"
    by (simp add: toInjectedHandler_def)
  have "trace w3 = trace w @ [CreateScope injector req (fst (createScope injector req w)),
                OnFinish res (EndScopeBound (fst (createScope injector req w))),
                GetService (fst (createScope injector req w)) name]"
    using s resolved_fields(4) [of injector name req res w] by simp
  then have "\<not> list_ex is_Call (drop (length (trace w)) (trace w3))" by simp
  with g t show ?thesis by blast
qed

lemma invalid_middleware_message_names:
  "\<exists>pre post. invalid_middleware_message name = pre @ name @ post"
  unfolding invalid_middleware_message_def by (metis append.assoc)

lemma example_invalid_shape:
  "fst (getHandler 0 ''Empty'' (Ref 0) (Ref 2) example_world) =
     Inl (Error (invalid_middleware_message ''Empty''))"
proof -
  have r: "fst (resolved 0 ''Empty'' (Ref 0) (Ref 2) example_world) = Inr (Ref 7)"
    by (simp add: example_resolved example_services_def)
  show ?thesis
    by (simp add: getHandler_alt r example_world_heap) (simp add: example_heap_def)
qed

lemma nullish_instance_type_error:
  assumes "resolved injector name req res w = (Inr v, w3)"
    and "v = Null \<or> v = Undefined"
  shows "getHandler injector name req res w = (Inl TypeError, w3)"
  using assms by (auto simp: getHandler_alt)

text \<open>
  Claim C4, at a registration that yields \<^verbatim>\<open>null\<close>: the instance is neither callable nor
  exposes \<^verbatim>\<open>handle\<close>, and \<open>getHandler\<close> throws the engine's \<open>TypeError\<close> for the property
  read \<^verbatim>\<open>scopedHandler.handle\<close>, not the error that names the identifier.
\<close>

theorem null_instance_type_error:
  "fst (resolved 0 ''Broken'' (Ref 0) (Ref 2) example_world) = Inr Null \<and>
   \<not> typeof_function (heap example_world) Null \<and>
   \<not> exposes_handle (heap example_world) Null \<and>
   fst (getHandler 0 ''Broken'' (Ref 0) (Ref 2) example_world) = Inl TypeError \<and>
   fst (getHandler 0 ''Broken'' (Ref 0) (Ref 2) example_world) \<noteq>
     Inl (Error (invalid_middleware_message ''Broken''))"
proof -
  have r: "fst (resolved 0 ''Broken'' (Ref 0) (Ref 2) example_world) = Inr Null"
    by (simp add: example_resolved example_services_def)
  have g: "fst (getHandler 0 ''Broken'' (Ref 0) (Ref 2) example_world) = Inl TypeError"
    by (simp add: getHandler_alt r)
  show ?thesis
    by (simp add: r g exposes_handle_def)
qed

section \<open>What the adapters pass on\<close>

text \<open>
  Claim C7. Whenever \<open>getHandler\<close> returns a normalized handler, the standard adapter
  calls it with exactly \<open>[req, res, next]\<close> and the error adapter with exactly
  \<open>[err, req, res, next]\<close>, the error first and unchanged. The call enters one function
  body with those arguments, and the adapter settles as that body settles (fulfilled,
  rejected, or never): it awaits the handler.
\<close>

theorem adapters_pass_arguments:
  assumes "getHandler injector name req res w = (Inr h, w')"
  shows "toInjectedHandler prog injector name req res nxt w =
           call prog h Undefined [req, res, nxt] w' \<and>
         toInjectedErrorHandler prog injector name err req res nxt w =
           call prog h Undefined [err, req, res, nxt] w' \<and>
         (\<exists>a g t. \<forall>args. call prog h Undefined args w' =
            (fst (prog g t args (heap w')),
             w'\<lparr>heap := snd (prog g t args (heap w')), trace := trace w' @ [Call (Ref a) t args]\<rparr>))"
  using assms call_enters_body [OF getHandler_callable [OF assms], of prog Undefined]
  by (simp add: toInjectedHandler_def toInjectedErrorHandler_def)

theorem adapters_pass_arguments_witness:
  "getHandler 0 ''Counting'' (Ref 0) (Ref 2) example_world =
     (Inr (BoundFn (Ref 4) (Ref 5)), snd (resolved 0 ''Counting'' (Ref 0) (Ref 2) example_world)) \<and>
   toInjectedHandler example_prog 0 ''Counting'' (Ref 0) (Ref 2) (Ref 3) example_world =
     call example_prog (BoundFn (Ref 4) (Ref 5)) Undefined [Ref 0, Ref 2, Ref 3]
       (snd (resolved 0 ''Counting'' (Ref 0) (Ref 2) example_world)) \<and>
   toInjectedErrorHandler example_prog 0 ''Counting'' (Ref 7) (Ref 0) (Ref 2) (Ref 3) example_world =
     call example_prog (BoundFn (Ref 4) (Ref 5)) Undefined [Ref 7, Ref 0, Ref 2, Ref 3]
       (snd (resolved 0 ''Counting'' (Ref 0) (Ref 2) example_world))"
proof -
  have r: "fst (resolved 0 ''Counting'' (Ref 0) (Ref 2) example_world) = Inr (Ref 5)"
    by (simp add: example_resolved example_services_def)
  have a: "getHandler 0 ''Counting'' (Ref 0) (Ref 2) example_world =
     (Inr (BoundFn (Ref 4) (Ref 5)), snd (resolved 0 ''Counting'' (Ref 0) (Ref 2) example_world))"
    by (simp add: getHandler_alt r example_world_heap) (simp add: example_heap_def)
  from adapters_pass_arguments [OF a, of example_prog "Ref 3" "Ref 7"] a
  show ?thesis by blast
qed

section \<open>Errors\<close>



section \<open>A failed lookup\<close>

text \<open>
  Claim C10. When the lookup of the service fails, every produced handler (those of
  \<open>toInjectedHandler\<close>, \<open>toInjectedErrorHandler\<close> and \<open>toInjectedMiddleware\<close>) rejects with
  the container's error in a world where the request already has its scope and the
  teardown listener is already the last listener of the response: the registration is
  not undone, and when the completion signal fires on that world the scope's \<open>endScope\<close>
  is invoked.
\<close>

theorem failed_lookup_keeps_binding:
  assumes "resolved injector name req res w = (Inl e, w3)"
  shows "toInjectedHandler prog injector name req res nxt w = (Rejected e, w3) \<and>
         toInjectedErrorHandler prog injector name err req res nxt w = (Rejected e, w3) \<and>
         toInjectedMiddleware prog injector (IsString name) req res nxt w = (Rejected e, w3) \<and>
         toInjectedMiddleware prog injector (IsClass name) req res nxt w = (Rejected e, w3) \<and>
         (\<forall>i. injector_of i = injector \<and> name_of i = name \<and> request_of i = req \<and> response_of i = res
              \<longrightarrow> invoke prog i w = (Rejected e, w3)) \<and>
         req \<in> set (contexts (containers w3 injector)) \<and>
         listeners w3 res = listeners w res @ [EndScopeBound (fst (createScope injector req w))] \<and>
         trace (emit_finish res w3) =
           trace w3 @ map callback_event (listeners w res) @ [EndScope (fst (createScope injector req w))]"
proof -
  from assms have r: "fst (resolved injector name req res w) = Inl e"
    and s: "snd (resolved injector name req res w) = w3"
    by simp_all
  have 1: "toInjectedHandler prog injector name req res n w = (Rejected e, w3)" for n
    using r s by (simp add: toInjectedHandler_alt getHandler_alt)
  have 2: "toInjectedErrorHandler prog injector name x req res n w = (Rejected e, w3)" for x n
    using r s by (simp add: toInjectedErrorHandler_alt getHandler_alt)
  have 3: "toInjectedMiddleware prog injector dt req res n w = (Rejected e, w3)"
    if "serviceName dt = name" for dt n
    using r s that by (simp add: toInjectedMiddleware_alt)
  have 4: "invoke prog i w = (Rejected e, w3)"
    if "injector_of i = injector \<and> name_of i = name \<and> request_of i = req \<and> response_of i = res"
    for i
    using that by (cases i) (simp_all add: 1 2 3)
  have "containers w3 = containers (snd (createScope injector req w))"
    using s resolved_fields(2) [of injector name req res w] by simp
  then have 5: "req \<in> set (contexts (containers w3 injector))"
    by (simp add: createScope_mem)
  have 6: "listeners w3 res = listeners w res @ [EndScopeBound (fst (createScope injector req w))]"
    using s resolved_fields(3) [of injector name req res w] by simp
  then have 7: "trace (emit_finish res w3) =
      trace w3 @ map callback_event (listeners w res) @ [EndScope (fst (createScope injector req w))]"
    by (simp add: emit_finish_eq)
  have ms: "toInjectedMiddleware prog injector (IsString name) req res nxt w = (Rejected e, w3)"
    by (rule 3) simp
  have mc: "toInjectedMiddleware prog injector (IsClass name) req res nxt w = (Rejected e, w3)"
    by (rule 3) simp
  from 1 [of nxt] 2 [of err nxt] ms mc 4 5 6 7 show ?thesis by blast
qed

theorem failed_lookup_keeps_binding_witness:
  "resolved 0 ''Nope'' (Ref 0) (Ref 2) example_world =
     (Inl (ServiceNotFound ''Nope''), snd (resolved 0 ''Nope'' (Ref 0) (Ref 2) example_world)) \<and>
   toInjectedHandler example_prog 0 ''Nope'' (Ref 0) (Ref 2) (Ref 3) example_world =
     (Rejected (ServiceNotFound ''Nope''), snd (resolved 0 ''Nope'' (Ref 0) (Ref 2) example_world)) \<and>
   toInjectedErrorHandler example_prog 0 ''Nope'' (Ref 7) (Ref 0) (Ref 2) (Ref 3) example_world =
     (Rejected (ServiceNotFound ''Nope''), snd (resolved 0 ''Nope'' (Ref 0) (Ref 2) example_world)) \<and>
   injector_of (OnError 0 ''Nope'' (Ref 7) (Ref 0) (Ref 2) (Ref 3)) = 0 \<and>
   name_of (OnError 0 ''Nope'' (Ref 7) (Ref 0) (Ref 2) (Ref 3)) = ''Nope'' \<and>
   request_of (OnError 0 ''Nope'' (Ref 7) (Ref 0) (Ref 2) (Ref 3)) = Ref 0 \<and>
   response_of (OnError 0 ''Nope'' (Ref 7) (Ref 0) (Ref 2) (Ref 3)) = Ref 2 \<and>
   invoke example_prog (OnError 0 ''Nope'' (Ref 7) (Ref 0) (Ref 2) (Ref 3)) example_world =
     (Rejected (ServiceNotFound ''Nope''), snd (resolved 0 ''Nope'' (Ref 0) (Ref 2) example_world)) \<and>
   listeners (snd (resolved 0 ''Nope'' (Ref 0) (Ref 2) example_world)) (Ref 2) =
     [EndScopeBound (Scope 0 0)] \<and>
   trace (emit_finish (Ref 2) (snd (resolved 0 ''Nope'' (Ref 0) (Ref 2) example_world))) =
     trace (snd (resolved 0 ''Nope'' (Ref 0) (Ref 2) example_world)) @ [EndScope (Scope 0 0)]"
proof -
  let ?w3 = "snd (resolved 0 ''Nope'' (Ref 0) (Ref 2) example_world)"
  let ?i = "OnError 0 ''Nope'' (Ref 7) (Ref 0) (Ref 2) (Ref 3)"
  have a: "resolved 0 ''Nope'' (Ref 0) (Ref 2) example_world = (Inl (ServiceNotFound ''Nope''), ?w3)"
    by (simp add: prod_eq_iff example_resolved example_services_def)
  have b: "fst (createScope 0 (Ref 0) example_world) = Scope 0 0"
    by (simp add: createScope_def Let_def example_world_def)
  have c: "listeners example_world (Ref 2) = []"
    by (simp add: example_world_def)
  have d: "injector_of ?i = 0 \<and> name_of ?i = ''Nope'' \<and> request_of ?i = Ref 0 \<and> response_of ?i = Ref 2"
    by simp
  note th = failed_lookup_keeps_binding [OF a, of example_prog "Ref 3" "Ref 7"]
  from th have 1: "toInjectedHandler example_prog 0 ''Nope'' (Ref 0) (Ref 2) (Ref 3) example_world =
     (Rejected (ServiceNotFound ''Nope''), ?w3)"
    by blast
  from th have 2: "toInjectedErrorHandler example_prog 0 ''Nope'' (Ref 7) (Ref 0) (Ref 2) (Ref 3) example_world =
     (Rejected (ServiceNotFound ''Nope''), ?w3)"
    by blast
  from th d have 3: "invoke example_prog ?i example_world = (Rejected (ServiceNotFound ''Nope''), ?w3)"
    by blast
  from th b c have 4: "listeners ?w3 (Ref 2) = [EndScopeBound (Scope 0 0)]"
    by simp
  from th b c have 5: "trace (emit_finish (Ref 2) ?w3) = trace ?w3 @ [EndScope (Scope 0 0)]"
    by simp
  from a 1 2 d 3 4 5 show ?thesis by blast
qed

section \<open>The type-directed variant\<close>

text \<open>
  Claim C9, as the code has it. The handler of \<open>toInjectedMiddleware\<close> looks up the string
  as it is, or the name of the class, and then always makes the member call
  \<^verbatim>\<open>scopedHandler.handle(req, res, next)\<close>: it does not classify the instance. It agrees
  with the handler of \<open>toInjectedHandler\<close> for the derived name whenever the lookup fails
  or yields an instance that is not callable and exposes a callable \<^verbatim>\<open>handle\<close>.
\<close>

theorem middleware_agrees_on_handle_bearing:
  assumes "resolved injector (serviceName dt) req res w = (r, w3)"
    and "\<forall>v. r = Inr v \<longrightarrow> \<not> typeof_function (heap w3) v \<and> exposes_handle (heap w3) v"
  shows "toInjectedMiddleware prog injector dt req res nxt w =
         toInjectedHandler prog injector (serviceName dt) req res nxt w"
proof (cases r)
  case (Inl e)
  with assms(1) show ?thesis
    by (simp add: toInjectedMiddleware_alt toInjectedHandler_alt getHandler_alt)
next
  case (Inr v)
  with assms have a: "resolved injector (serviceName dt) req res w = (Inr v, w3)"
    and b: "\<not> typeof_function (heap w3) v" and c: "exposes_handle (heap w3) v"
    by simp_all
  have "toInjectedHandler prog injector (serviceName dt) req res nxt w =
        call_method prog v ''handle'' [req, res, nxt] w3"
    by (rule toInjectedHandler_handle_bearing [OF a b c])
  moreover have "toInjectedMiddleware prog injector dt req res nxt w =
        call_method prog v ''handle'' [req, res, nxt] w3"
    using a by (simp add: toInjectedMiddleware_alt)
  ultimately show ?thesis by simp
qed

theorem middleware_agrees_on_handle_bearing_witness:
  "resolved 0 (serviceName (IsClass ''Counting'')) (Ref 0) (Ref 2) example_world =
     (Inr (Ref 5), snd (resolved 0 ''Counting'' (Ref 0) (Ref 2) example_world)) \<and>
   \<not> typeof_function (heap (snd (resolved 0 ''Counting'' (Ref 0) (Ref 2) example_world))) (Ref 5) \<and>
   exposes_handle (heap (snd (resolved 0 ''Counting'' (Ref 0) (Ref 2) example_world))) (Ref 5) \<and>
   toInjectedMiddleware example_prog 0 (IsClass ''Counting'') (Ref 0) (Ref 2) (Ref 3) example_world =
     toInjectedHandler example_prog 0 ''Counting'' (Ref 0) (Ref 2) (Ref 3) example_world"
proof -
  have a: "resolved 0 (serviceName (IsClass ''Counting'')) (Ref 0) (Ref 2) example_world =
     (Inr (Ref 5), snd (resolved 0 ''Counting'' (Ref 0) (Ref 2) example_world))"
    by (simp add: prod_eq_iff example_resolved example_services_def)
  have b: "\<not> typeof_function (heap (snd (resolved 0 ''Counting'' (Ref 0) (Ref 2) example_world))) (Ref 5)"
    by (simp add: example_world_def) (simp add: example_heap_def)
  have c: "exposes_handle (heap (snd (resolved 0 ''Counting'' (Ref 0) (Ref 2) example_world))) (Ref 5)"
    by (simp add: exposes_handle_def example_world_def) (simp add: example_heap_def)
  from b c have d: "\<forall>v. (Inr (Ref 5) :: js_error + jsval) = Inr v \<longrightarrow>
      \<not> typeof_function (heap (snd (resolved 0 ''Counting'' (Ref 0) (Ref 2) example_world))) v \<and>
      exposes_handle (heap (snd (resolved 0 ''Counting'' (Ref 0) (Ref 2) example_world))) v"
    by simp
  from middleware_agrees_on_handle_bearing [OF a d, of example_prog "Ref 3"] a b c
  show ?thesis by simp
qed

text \<open>
  Claim C9, as stated, fails for a service that is a plain handler function: the handler
  of \<open>toInjectedHandler\<close> calls it, the handler of \<open>toInjectedMiddleware\<close> rejects with the
  \<open>TypeError\<close> of calling its absent \<^verbatim>\<open>handle\<close>.
\<close>

theorem middleware_differs_on_callable:
  "fst (toInjectedHandler example_prog 0 ''Plain'' (Ref 0) (Ref 2) (Ref 3) example_world) = Fulfilled \<and>
   fst (toInjectedMiddleware example_prog 0 (IsString ''Plain'') (Ref 0) (Ref 2) (Ref 3) example_world)
     = Rejected TypeError"
proof -
  have r: "fst (resolved 0 ''Plain'' (Ref 0) (Ref 2) example_world) = Inr (Ref 6)"
    by (simp add: example_resolved example_services_def)
  have h: "heap example_world = example_heap" by (simp add: example_world_def)
  have "fst (toInjectedHandler example_prog 0 ''Plain'' (Ref 0) (Ref 2) (Ref 3) example_world) = Fulfilled"
    by (simp add: toInjectedHandler_alt getHandler_alt r h example_typeof)
       (simp add: example_heap_def example_prog_def)
  moreover have "fst (toInjectedMiddleware example_prog 0 (IsString ''Plain'') (Ref 0) (Ref 2) (Ref 3) example_world)
     = Rejected TypeError"
    by (simp add: toInjectedMiddleware_alt r call_method_def h) (simp add: example_heap_def)
  ultimately show ?thesis by simp
qed

section \<open>Host runs\<close>

lemma run_Nil [simp]: "run prog [] w = w"
  by (simp add: run_def)

lemma run_Cons [simp]: "run prog (ev # evs) w = run prog evs (step prog ev w)"
  by (simp add: run_def)

lemma run_append [simp]: "run prog (xs @ ys) w = run prog ys (run prog xs w)"
  by (simp add: run_def)

lemma invoke_fields:
  "containers (snd (invoke prog i w)) = containers (snd (createScope (injector_of i) (request_of i) w))"
  "listeners (snd (invoke prog i w)) =
     (listeners w)(response_of i := listeners w (response_of i) @
        [EndScopeBound (fst (createScope (injector_of i) (request_of i) w))])"
proof -
  obtain h' t where
    "snd (invoke prog i w) =
       (snd (getHandler (injector_of i) (name_of i) (request_of i) (response_of i) w))
         \<lparr>heap := h',
          trace := trace (snd (getHandler (injector_of i) (name_of i) (request_of i) (response_of i) w)) @ t\<rparr>"
    using invoke_world [of prog i w] by blast
  then show
    "containers (snd (invoke prog i w)) = containers (snd (createScope (injector_of i) (request_of i) w))"
    "listeners (snd (invoke prog i w)) =
     (listeners w)(response_of i := listeners w (response_of i) @
        [EndScopeBound (fst (createScope (injector_of i) (request_of i) w))])"
    by (simp_all add: getHandler_snd)
qed

lemma invoke_trace:
  "\<exists>t. list_all is_Call t \<and>
     trace (snd (invoke prog i w)) =
       trace w @
       [CreateScope (injector_of i) (request_of i) (fst (createScope (injector_of i) (request_of i) w)),
        OnFinish (response_of i) (EndScopeBound (fst (createScope (injector_of i) (request_of i) w))),
        GetService (fst (createScope (injector_of i) (request_of i) w)) (name_of i)] @ t"
proof -
  obtain h' t where t: "list_all is_Call t" and
    "snd (invoke prog i w) =
       (snd (getHandler (injector_of i) (name_of i) (request_of i) (response_of i) w))
         \<lparr>heap := h',
          trace := trace (snd (getHandler (injector_of i) (name_of i) (request_of i) (response_of i) w)) @ t\<rparr>"
    using invoke_world [of prog i w] by blast
  then have "trace (snd (invoke prog i w)) =
       trace w @
       [CreateScope (injector_of i) (request_of i) (fst (createScope (injector_of i) (request_of i) w)),
        OnFinish (response_of i) (EndScopeBound (fst (createScope (injector_of i) (request_of i) w))),
        GetService (fst (createScope (injector_of i) (request_of i) w)) (name_of i)] @ t"
    by (simp add: getHandler_snd)
  with t show ?thesis by blast
qed

lemma step_Invoke_fields:
  "containers (step prog (Invoke i) w) = containers (snd (createScope (injector_of i) (request_of i) w))"
  "listeners (step prog (Invoke i) w) =
     (listeners w)(response_of i := listeners w (response_of i) @
        [EndScopeBound (fst (createScope (injector_of i) (request_of i) w))])"
  "trace (step prog (Invoke i) w) = trace (snd (invoke prog i w)) @ [Returned (fst (invoke prog i w))]"
  by (simp_all add: case_prod_beta invoke_fields)

lemma step_Continue:
  "\<exists>h' t. list_all is_Call t \<and>
     step prog (Continue f this args) w = w\<lparr>heap := h', trace := trace w @ t\<rparr>"
  using call_world [of prog f this args w] by simp

lemma step_contexts:
  "\<exists>xs. contexts (containers (step prog ev w) j) = contexts (containers w j) @ xs"
proof (cases ev)
  case (Invoke i)
  then show ?thesis
    by (simp only: step_Invoke_fields(1) createScope_contexts) simp
next
  case (Finish r)
  then show ?thesis by (simp add: emit_finish_eq)
next
  case (Continue f this args)
  obtain h' t where "step prog (Continue f this args) w = w\<lparr>heap := h', trace := trace w @ t\<rparr>"
    using step_Continue [of prog f this args w] by blast
  with Continue show ?thesis by simp
qed

lemma run_contexts:
  "\<exists>xs. contexts (containers (run prog evs w) j) = contexts (containers w j) @ xs"
proof (induction evs arbitrary: w)
  case Nil
  show ?case by simp
next
  case (Cons ev evs)
  obtain xs where "contexts (containers (step prog ev w) j) = contexts (containers w j) @ xs"
    using step_contexts [of prog ev w j] by blast
  moreover obtain ys where
    "contexts (containers (run prog evs (step prog ev w)) j) =
     contexts (containers (step prog ev w) j) @ ys"
    using Cons.IH [of "step prog ev w"] by blast
  ultimately show ?case by simp
qed

lemma createScope_run_stable:
  assumes "c \<in> set (contexts (containers w i))"
  shows "fst (createScope i c (run prog evs w)) = fst (createScope i c w)"
proof -
  obtain xs where xs: "contexts (containers (run prog evs w) i) = contexts (containers w i) @ xs"
    using run_contexts [of prog evs w i] by blast
  with assms have "c \<in> set (contexts (containers (run prog evs w) i))" by simp
  then have "fst (createScope i c (run prog evs w)) =
      Scope i (index_of c (contexts (containers (run prog evs w) i)))"
    by (rule createScope_again)
  also have "\<dots> = Scope i (index_of c (contexts (containers w i)))"
    using assms xs by (simp add: index_of_append)
  also have "\<dots> = fst (createScope i c w)"
    using assms by (simp add: createScope_again)
  finally show ?thesis .
qed

lemma step_Invoke_scope:
  "request_of i \<in> set (contexts (containers (step prog (Invoke i) w) (injector_of i)))"
  "fst (createScope (injector_of i) (request_of i) (step prog (Invoke i) w)) =
   fst (createScope (injector_of i) (request_of i) w)"
proof -
  show m: "request_of i \<in> set (contexts (containers (step prog (Invoke i) w) (injector_of i)))"
    by (simp only: step_Invoke_fields(1) createScope_mem)
  then have "fst (createScope (injector_of i) (request_of i) (step prog (Invoke i) w)) =
      Scope (injector_of i)
        (index_of (request_of i) (contexts (containers (step prog (Invoke i) w) (injector_of i))))"
    by (rule createScope_again)
  also have "\<dots> = fst (createScope (injector_of i) (request_of i) w)"
    using createScope_fst [of "injector_of i" "request_of i" w]
    by (simp only: step_Invoke_fields(1))
  finally show "fst (createScope (injector_of i) (request_of i) (step prog (Invoke i) w)) =
   fst (createScope (injector_of i) (request_of i) w)" .
qed

lemma invoked_in_contexts:
  "i \<in> set (invoked evs) \<Longrightarrow>
   request_of i \<in> set (contexts (containers (run prog evs w) (injector_of i)))"
proof (induction evs arbitrary: w)
  case Nil
  then show ?case by simp
next
  case (Cons ev evs)
  show ?case
  proof (cases "ev = Invoke i")
    case True
    obtain xs where
      "contexts (containers (run prog evs (step prog (Invoke i) w)) (injector_of i)) =
       contexts (containers (step prog (Invoke i) w) (injector_of i)) @ xs"
      using run_contexts [of prog evs "step prog (Invoke i) w" "injector_of i"] by blast
    with True step_Invoke_scope(1) [of i prog w] show ?thesis by simp
  next
    case False
    with Cons.prems have "i \<in> set (invoked evs)"
      by (cases ev) auto
    then show ?thesis
      using Cons.IH [of "step prog ev w"] by simp
  qed
qed

lemma listeners_run:
  "listeners (run prog evs w) res =
     listeners w res @
     map (\<lambda>i. EndScopeBound (fst (createScope (injector_of i) (request_of i) (run prog evs w))))
       (filter (\<lambda>i. response_of i = res) (invoked evs))"
proof (induction evs arbitrary: w)
  case Nil
  show ?case by simp
next
  case (Cons ev evs)
  show ?case
  proof (cases ev)
    case (Invoke i)
    let ?w1 = "step prog (Invoke i) w"
    have s: "fst (createScope (injector_of i) (request_of i) (run prog evs ?w1)) =
             fst (createScope (injector_of i) (request_of i) w)"
      using createScope_run_stable
        [of "request_of i" "step prog (Invoke i) w" "injector_of i" prog evs, OF step_Invoke_scope(1)]
      by (simp only: step_Invoke_scope(2))
    have l: "listeners ?w1 res =
        (if response_of i = res
         then listeners w res @ [EndScopeBound (fst (createScope (injector_of i) (request_of i) w))]
         else listeners w res)"
      by (simp only: step_Invoke_fields(2)) simp
    show ?thesis
      using Cons.IH [of ?w1] Invoke l s by simp
  next
    case (Finish r)
    then show ?thesis
      using Cons.IH [of "step prog ev w"] by (simp add: emit_finish_eq)
  next
    case (Continue f this args)
    obtain h' t where "step prog (Continue f this args) w = w\<lparr>heap := h', trace := trace w @ t\<rparr>"
      using step_Continue [of prog f this args w] by blast
    with Continue show ?thesis
      using Cons.IH [of "step prog ev w"] by simp
  qed
qed

lemma index_of_less: "x \<in> set xs \<Longrightarrow> index_of x xs < length xs"
  by (induction xs) auto

lemma index_of_fresh: "x \<notin> set xs \<Longrightarrow> index_of x (xs @ [x]) = length xs"
  by (induction xs) auto

lemma createScope_eq_iff:
  assumes "r \<in> set (contexts (containers w a))"
  shows "fst (createScope a r w) = fst (createScope b q w) \<longleftrightarrow> a = b \<and> r = q"
proof (cases "a = b")
  case False
  then show ?thesis by (simp add: createScope_def Let_def)
next
  case True
  let ?cs = "contexts (containers w a)"
  have l: "fst (createScope a r w) = Scope a (index_of r ?cs)"
    using assms by (rule createScope_again)
  show ?thesis
  proof (cases "q \<in> set ?cs")
    case True
    then have "fst (createScope a q w) = Scope a (index_of q ?cs)"
      by (rule createScope_again)
    with l assms True \<open>a = b\<close> show ?thesis
      by (simp add: index_of_eq_iff)
  next
    case False
    then have "fst (createScope a q w) = Scope a (length ?cs)"
      by (simp add: createScope_def Let_def index_of_fresh)
    with l assms False \<open>a = b\<close> index_of_less [OF assms] show ?thesis
      by auto
  qed
qed

lemma count_list_map:
  "count_list (map f xs) y = length (filter (\<lambda>x. f x = y) xs)"
  by (induction xs) auto

lemma finish_counts:
  "count_list
     (map (\<lambda>i. EndScope (fst (createScope (injector_of i) (request_of i) (run prog evs w))))
        (filter (\<lambda>i. response_of i = res) (invoked evs)))
     (EndScope (fst (createScope injector req (run prog evs w)))) =
   length (filter (\<lambda>i. response_of i = res \<and> injector_of i = injector \<and> request_of i = req)
             (invoked evs))"
proof -
  let ?wf = "run prog evs w"
  have "filter (\<lambda>i. EndScope (fst (createScope (injector_of i) (request_of i) ?wf)) =
                    EndScope (fst (createScope injector req ?wf)))
          (filter (\<lambda>i. response_of i = res) (invoked evs)) =
        filter (\<lambda>i. injector_of i = injector \<and> request_of i = req)
          (filter (\<lambda>i. response_of i = res) (invoked evs))"
    by (rule filter_cong [OF refl]) (simp add: createScope_eq_iff [OF invoked_in_contexts])
  then show ?thesis
    by (simp add: count_list_map)
qed

text \<open>
  Claim C1, as the code has it. Every invocation of a produced handler registers one
  more teardown listener on its response, and nothing removes or merges listeners. In
  any run of the host, with any other requests handled in between, the completion signal
  of a response invokes \<open>endScope\<close> once for each listener the response had at the start
  and once for each invocation made with that response before the signal, for the scope
  of that invocation's request. So \<open>endScope\<close> of a request's scope is invoked as many
  times as produced handlers were invoked for that request with that response before the
  signal: exactly once only when exactly one was.
\<close>

theorem teardown_once_per_invocation:
  "trace (run prog (evs @ [Finish res]) w) =
     trace (run prog evs w) @ map callback_event (listeners w res) @
     map (\<lambda>i. EndScope (fst (createScope (injector_of i) (request_of i) (run prog evs w))))
       (filter (\<lambda>i. response_of i = res) (invoked evs)) \<and>
   (listeners w res = [] \<longrightarrow>
      count_list
        (drop (length (trace (run prog evs w))) (trace (run prog (evs @ [Finish res]) w)))
        (EndScope (fst (createScope injector req (run prog evs w)))) =
      length (filter (\<lambda>i. response_of i = res \<and> injector_of i = injector \<and> request_of i = req)
                (invoked evs)))"
proof -
  have t: "trace (run prog (evs @ [Finish res]) w) =
     trace (run prog evs w) @ map callback_event (listeners w res) @
     map (\<lambda>i. EndScope (fst (createScope (injector_of i) (request_of i) (run prog evs w))))
       (filter (\<lambda>i. response_of i = res) (invoked evs))"
    using listeners_run [of prog evs w res]
    by (simp add: emit_finish_eq comp_def)
  have "count_list
        (drop (length (trace (run prog evs w))) (trace (run prog (evs @ [Finish res]) w)))
        (EndScope (fst (createScope injector req (run prog evs w)))) =
      length (filter (\<lambda>i. response_of i = res \<and> injector_of i = injector \<and> request_of i = req)
                (invoked evs))"
    if "listeners w res = []"
    using that finish_counts [of prog evs w res injector req]
    by (simp only: t) simp
  with t show ?thesis by blast
qed

theorem teardown_once_per_invocation_witness:
  "listeners example_world (Ref 2) = [] \<and>
   count_list
     (drop
        (length (trace (run example_prog
           [Invoke example_invocation, Invoke example_invocation2, Invoke example_invocation]
           example_world)))
        (trace (run example_prog
           ([Invoke example_invocation, Invoke example_invocation2, Invoke example_invocation] @
            [Finish (Ref 2)])
           example_world)))
     (EndScope (fst (createScope 0 (Ref 0)
        (run example_prog
           [Invoke example_invocation, Invoke example_invocation2, Invoke example_invocation]
           example_world)))) = 2"
proof -
  have a: "listeners example_world (Ref 2) = []"
    by (simp add: example_world_def)
  have b: "length (filter (\<lambda>i. response_of i = Ref 2 \<and> injector_of i = 0 \<and> request_of i = Ref 0)
      (invoked [Invoke example_invocation, Invoke example_invocation2, Invoke example_invocation])) = 2"
    by (simp add: example_invocation_def example_invocation2_def)
  have "count_list
     (drop
        (length (trace (run example_prog
           [Invoke example_invocation, Invoke example_invocation2, Invoke example_invocation]
           example_world)))
        (trace (run example_prog
           ([Invoke example_invocation, Invoke example_invocation2, Invoke example_invocation] @
            [Finish (Ref 2)])
           example_world)))
     (EndScope (fst (createScope 0 (Ref 0)
        (run example_prog
           [Invoke example_invocation, Invoke example_invocation2, Invoke example_invocation]
           example_world)))) =
     length (filter (\<lambda>i. response_of i = Ref 2 \<and> injector_of i = 0 \<and> request_of i = Ref 0)
      (invoked [Invoke example_invocation, Invoke example_invocation2, Invoke example_invocation]))"
    by (rule teardown_once_per_invocation [THEN conjunct2, rule_format, OF a])
  then have c: "count_list
     (drop
        (length (trace (run example_prog
           [Invoke example_invocation, Invoke example_invocation2, Invoke example_invocation]
           example_world)))
        (trace (run example_prog
           ([Invoke example_invocation, Invoke example_invocation2, Invoke example_invocation] @
            [Finish (Ref 2)])
           example_world)))
     (EndScope (fst (createScope 0 (Ref 0)
        (run example_prog
           [Invoke example_invocation, Invoke example_invocation2, Invoke example_invocation]
           example_world)))) = 2"
    by (simp only: b)
  show ?thesis
    by (rule conjI [OF a c])
qed

text \<open>
  Claim C1, as stated, fails when two handlers were invoked for the request: the
  completion signal invokes \<open>endScope\<close> of the one scope twice.
\<close>

theorem teardown_twice_for_two_handlers:
  "count_list
     (trace (run example_prog [Invoke example_invocation, Invoke example_invocation, Finish (Ref 2)]
               example_world))
     (EndScope (Scope 0 0)) = 2"
  by (simp add: run_def example_invocation_def toInjectedHandler_def getHandler_def
      createScope_def on_finish_def getService_def Let_def case_prod_beta emit_finish_def endScope_def
      example_world_def example_services_def example_heap_def example_prog_def)

section \<open>Teardown and the handlers\<close>

lemma is_Call_not_EndScope: "is_Call e \<Longrightarrow> \<not> is_EndScope e"
  by (cases e) simp_all

lemma step_records_no_EndScope:
  assumes "\<not> is_Finish ev"
  shows "\<exists>a. list_all (\<lambda>e. \<not> is_EndScope e) a \<and> trace (step prog ev w) = trace w @ a"
proof (cases ev)
  case (Invoke i)
  obtain t where t: "list_all is_Call t" and
    w1: "trace (snd (invoke prog i w)) =
       trace w @
       [CreateScope (injector_of i) (request_of i) (fst (createScope (injector_of i) (request_of i) w)),
        OnFinish (response_of i) (EndScopeBound (fst (createScope (injector_of i) (request_of i) w))),
        GetService (fst (createScope (injector_of i) (request_of i) w)) (name_of i)] @ t"
    using invoke_trace [of prog i w] by blast
  let ?a = "[CreateScope (injector_of i) (request_of i) (fst (createScope (injector_of i) (request_of i) w)),
        OnFinish (response_of i) (EndScopeBound (fst (createScope (injector_of i) (request_of i) w))),
        GetService (fst (createScope (injector_of i) (request_of i) w)) (name_of i)] @ t @
        [Returned (fst (invoke prog i w))]"
  from t have "list_all (\<lambda>e. \<not> is_EndScope e) t"
    by (simp add: list_all_iff is_Call_not_EndScope)
  then have "list_all (\<lambda>e. \<not> is_EndScope e) ?a" by simp
  moreover have "trace (step prog (Invoke i) w) = trace w @ ?a"
    by (simp only: step_Invoke_fields(3) w1) simp
  ultimately show ?thesis using Invoke by blast
next
  case (Finish r)
  with assms show ?thesis by simp
next
  case (Continue f this args)
  obtain h' t where t: "list_all is_Call t"
    and "step prog (Continue f this args) w = w\<lparr>heap := h', trace := trace w @ t\<rparr>"
    using step_Continue [of prog f this args w] by blast
  then have "trace (step prog (Continue f this args) w) = trace w @ t" by simp
  moreover from t have "list_all (\<lambda>e. \<not> is_EndScope e) t"
    by (simp add: list_all_iff is_Call_not_EndScope)
  ultimately show ?thesis using Continue by blast
qed

lemma run_records_no_EndScope:
  "list_all (\<lambda>ev. \<not> is_Finish ev) evs \<Longrightarrow>
   \<exists>a. list_all (\<lambda>e. \<not> is_EndScope e) a \<and> trace (run prog evs w) = trace w @ a"
proof (induction evs arbitrary: w)
  case Nil
  show ?case by simp
next
  case (Cons ev evs)
  from Cons.prems have ev: "\<not> is_Finish ev" and evs: "list_all (\<lambda>ev. \<not> is_Finish ev) evs"
    by simp_all
  obtain a where a: "list_all (\<lambda>e. \<not> is_EndScope e) a"
    and s: "trace (step prog ev w) = trace w @ a"
    using step_records_no_EndScope [OF ev, of prog w] by blast
  obtain b where b: "list_all (\<lambda>e. \<not> is_EndScope e) b"
    and r: "trace (run prog evs (step prog ev w)) = trace (step prog ev w) @ b"
    using Cons.IH [OF evs, of "step prog ev w"] by blast
  have "list_all (\<lambda>e. \<not> is_EndScope e) (a @ b)" using a b by simp
  moreover have "trace (run prog (ev # evs) w) = trace w @ a @ b" using s r by simp
  ultimately show ?case by blast
qed

lemma callback_event_is_EndScope: "is_EndScope (callback_event cb)"
  by (cases cb) simp

text \<open>
  Claim C6, as the code has it. In every invocation of a produced handler the teardown
  listener is registered on the response before the resolved handler is called, and no
  invocation and no continuation of a handler invokes \<open>endScope\<close>: only the completion
  signal does, by running the listeners registered by then, and a run in which no signal
  fires invokes no \<open>endScope\<close>. Nothing orders the signal against the handlers: it can
  fire while a handler invoked before it is suspended, and before a handler invoked
  after it.
\<close>

theorem teardown_only_on_finish:
  "(\<exists>t. list_all is_Call t \<and>
      trace (step prog (Invoke i) w) =
        trace w @
        [CreateScope (injector_of i) (request_of i) (fst (createScope (injector_of i) (request_of i) w)),
         OnFinish (response_of i) (EndScopeBound (fst (createScope (injector_of i) (request_of i) w))),
         GetService (fst (createScope (injector_of i) (request_of i) w)) (name_of i)] @ t @
        [Returned (fst (invoke prog i w))]) \<and>
   trace (step prog (Finish res) w) = trace w @ map callback_event (listeners w res) \<and>
   list_all is_EndScope (map callback_event (listeners w res)) \<and>
   (\<exists>t. list_all is_Call t \<and> trace (step prog (Continue f this args) w) = trace w @ t) \<and>
   (list_all (\<lambda>ev. \<not> is_Finish ev) evs \<longrightarrow>
      (\<exists>a. list_all (\<lambda>e. \<not> is_EndScope e) a \<and> trace (run prog evs w) = trace w @ a))"
proof -
  have 1: "\<exists>t. list_all is_Call t \<and>
      trace (step prog (Invoke i) w) =
        trace w @
        [CreateScope (injector_of i) (request_of i) (fst (createScope (injector_of i) (request_of i) w)),
         OnFinish (response_of i) (EndScopeBound (fst (createScope (injector_of i) (request_of i) w))),
         GetService (fst (createScope (injector_of i) (request_of i) w)) (name_of i)] @ t @
        [Returned (fst (invoke prog i w))]"
    using invoke_trace [of prog i w] by (simp only: step_Invoke_fields(3)) auto
  have 2: "trace (step prog (Finish res) w) = trace w @ map callback_event (listeners w res)"
    by (simp add: emit_finish_eq)
  have 3: "list_all is_EndScope (map callback_event (listeners w res))"
    by (simp add: list_all_iff callback_event_is_EndScope)
  have 4: "\<exists>t. list_all is_Call t \<and> trace (step prog (Continue f this args) w) = trace w @ t"
  proof -
    obtain h' t where "list_all is_Call t"
      and "step prog (Continue f this args) w = w\<lparr>heap := h', trace := trace w @ t\<rparr>"
      using step_Continue [of prog f this args w] by blast
    then have "list_all is_Call t \<and> trace (step prog (Continue f this args) w) = trace w @ t"
      by simp
    then show ?thesis by blast
  qed
  have 5: "\<exists>a. list_all (\<lambda>e. \<not> is_EndScope e) a \<and> trace (run prog evs w) = trace w @ a"
    if "list_all (\<lambda>ev. \<not> is_Finish ev) evs"
    using that by (rule run_records_no_EndScope)
  from 1 2 3 4 5 show ?thesis by blast
qed

theorem teardown_only_on_finish_witness:
  "list_all (\<lambda>ev. \<not> is_Finish ev)
     [Invoke example_slow_invocation, Invoke example_invocation2, Continue (Ref 11) Undefined []] \<and>
   (\<exists>a. list_all (\<lambda>e. \<not> is_EndScope e) a \<and>
      trace (run example_prog
               [Invoke example_slow_invocation, Invoke example_invocation2, Continue (Ref 11) Undefined []]
               example_world) = trace example_world @ a)"
proof -
  have a: "list_all (\<lambda>ev. \<not> is_Finish ev)
     [Invoke example_slow_invocation, Invoke example_invocation2, Continue (Ref 11) Undefined []]"
    by simp
  have b: "\<exists>a. list_all (\<lambda>e. \<not> is_EndScope e) a \<and>
      trace (run example_prog
               [Invoke example_slow_invocation, Invoke example_invocation2, Continue (Ref 11) Undefined []]
               example_world) = trace example_world @ a"
    by (rule teardown_only_on_finish
        [THEN conjunct2, THEN conjunct2, THEN conjunct2, THEN conjunct2, rule_format, OF a])
  show ?thesis
    by (rule conjI [OF a b])
qed

text \<open>
  Claim C6, as stated, fails when the host invokes a handler for the request after the
  completion signal of its response has fired: the scope's \<open>endScope\<close> (the sixth event)
  precedes the second handler's call.
\<close>

theorem handler_after_teardown:
  "trace (run example_prog [Invoke example_invocation, Finish (Ref 2), Invoke example_invocation]
            example_world) =
     [CreateScope 0 (Ref 0) (Scope 0 0),
      OnFinish (Ref 2) (EndScopeBound (Scope 0 0)),
      GetService (Scope 0 0) ''Counting'',
      Call (Ref 4) (Ref 5) [Ref 0, Ref 2, Ref 3],
      Returned Fulfilled,
      EndScope (Scope 0 0),
      CreateScope 0 (Ref 0) (Scope 0 0),
      OnFinish (Ref 2) (EndScopeBound (Scope 0 0)),
      GetService (Scope 0 0) ''Counting'',
      Call (Ref 4) (Ref 5) [Ref 0, Ref 2, Ref 3],
      Returned Fulfilled]"
  by (simp add: run_def example_invocation_def toInjectedHandler_def getHandler_def
      createScope_def on_finish_def getService_def Let_def case_prod_beta emit_finish_def endScope_def
      example_world_def example_services_def example_heap_def example_prog_def)

text \<open>
  It fails as well for a handler invoked before the signal: the handler suspends, its
  promise is pending when the signal fires and the scope is torn down, and the rest of
  the handler runs afterwards.
\<close>

lemma teardown_while_handler_suspended:
  "trace (run example_prog
            [Invoke example_slow_invocation, Finish (Ref 2), Continue (Ref 11) Undefined []]
            example_world) =
     [CreateScope 0 (Ref 0) (Scope 0 0),
      OnFinish (Ref 2) (EndScopeBound (Scope 0 0)),
      GetService (Scope 0 0) ''Slow'',
      Call (Ref 10) Undefined [Ref 0, Ref 2, Ref 3],
      Returned Pending,
      EndScope (Scope 0 0),
      Call (Ref 11) Undefined []]"
  by (simp add: run_def example_slow_invocation_def toInjectedHandler_def getHandler_def
      createScope_def on_finish_def getService_def Let_def case_prod_beta emit_finish_def endScope_def
      example_world_def example_services_def example_heap_def example_prog_def)

section \<open>Scope identity\<close>

lemma scope_recorded_createScope:
  "scope_recorded (containers w) e \<Longrightarrow> scope_recorded (containers (snd (createScope i c w))) e"
  by (cases e) (auto simp: createScope_contexts index_of_append)

lemma scope_recorded_new:
  "scope_recorded (containers (snd (createScope i c w))) (CreateScope i c (fst (createScope i c w)))"
  using createScope_fst [of i c w] by (simp add: createScope_mem)

lemma scope_recorded_Call: "is_Call e \<Longrightarrow> scope_recorded cs e"
  by (cases e) simp_all

lemma scopes_recorded_invoke:
  assumes "scopes_recorded w"
  shows "scopes_recorded (step prog (Invoke i) w)"
proof -
  let ?w1 = "step prog (Invoke i) w"
  let ?cs = "containers (snd (createScope (injector_of i) (request_of i) w))"
  obtain t where t: "list_all is_Call t" and
    w1: "trace (snd (invoke prog i w)) =
       trace w @
       [CreateScope (injector_of i) (request_of i) (fst (createScope (injector_of i) (request_of i) w)),
        OnFinish (response_of i) (EndScopeBound (fst (createScope (injector_of i) (request_of i) w))),
        GetService (fst (createScope (injector_of i) (request_of i) w)) (name_of i)] @ t"
    using invoke_trace [of prog i w] by blast
  have cs: "containers ?w1 = ?cs" by (rule step_Invoke_fields(1))
  have tr: "trace ?w1 = trace (snd (invoke prog i w)) @ [Returned (fst (invoke prog i w))]"
    by (rule step_Invoke_fields(3))
  have old: "list_all (scope_recorded ?cs) (trace w)"
    using assms by (simp add: scopes_recorded_def list_all_iff scope_recorded_createScope)
  have new: "list_all (scope_recorded ?cs) t"
    using t by (simp add: list_all_iff scope_recorded_Call)
  have cur: "scope_recorded ?cs
      (CreateScope (injector_of i) (request_of i) (fst (createScope (injector_of i) (request_of i) w)))"
    by (rule scope_recorded_new)
  show ?thesis
    using old new cur
    by (simp add: scopes_recorded_def cs tr w1 del: scope_recorded.simps(1) step.simps)
qed

lemma scope_recorded_callback: "scope_recorded cs (callback_event cb)"
  by (cases cb) simp

lemma scopes_recorded_step:
  assumes "scopes_recorded w"
  shows "scopes_recorded (step prog ev w)"
proof (cases ev)
  case (Invoke i)
  with assms show ?thesis by (simp only: scopes_recorded_invoke)
next
  case (Finish r)
  with assms show ?thesis
    by (auto simp: scopes_recorded_def emit_finish_eq list_all_iff scope_recorded_callback)
next
  case (Continue f this args)
  obtain h' t where t: "list_all is_Call t"
    and s: "step prog (Continue f this args) w = w\<lparr>heap := h', trace := trace w @ t\<rparr>"
    using step_Continue [of prog f this args w] by blast
  from t have "list_all (scope_recorded (containers w)) t"
    by (simp add: list_all_iff scope_recorded_Call)
  with assms Continue show ?thesis
    by (simp only: s) (simp add: scopes_recorded_def)
qed

lemma scopes_recorded_run:
  "scopes_recorded w \<Longrightarrow> scopes_recorded (run prog evs w)"
  by (induction evs arbitrary: w) (simp_all add: scopes_recorded_step del: step.simps)

text \<open>
  Claim C5. A produced handler asks the container for the scope of the very request it
  was invoked with, registers the teardown of that scope and looks the service up in it.
  In any run of the host that starts with an empty trace, two scopes obtained from one
  injector are the same scope exactly when they were obtained for the same request.
\<close>

theorem scope_identity:
  assumes "trace w = []"
    and "CreateScope injector r1 s1 \<in> set (trace (run prog evs w))"
    and "CreateScope injector r2 s2 \<in> set (trace (run prog evs w))"
  shows "(s1 = s2 \<longleftrightarrow> r1 = r2) \<and>
         (\<exists>s t. trace (snd (invoke prog i w')) =
            trace w' @ CreateScope (injector_of i) (request_of i) s #
              OnFinish (response_of i) (EndScopeBound s) # GetService s (name_of i) # t)"
proof -
  let ?w = "run prog evs w"
  let ?cs = "contexts (containers ?w injector)"
  from assms(1) have "scopes_recorded w" by (simp add: scopes_recorded_def)
  then have "scopes_recorded ?w" by (rule scopes_recorded_run)
  then have all: "\<forall>e \<in> set (trace ?w). scope_recorded (containers ?w) e"
    by (simp add: scopes_recorded_def list_all_iff)
  from all assms(2) have 1: "r1 \<in> set ?cs" "s1 = Scope injector (index_of r1 ?cs)"
    by fastforce+
  from all assms(3) have 2: "r2 \<in> set ?cs" "s2 = Scope injector (index_of r2 ?cs)"
    by fastforce+
  from 1 2 have "s1 = s2 \<longleftrightarrow> r1 = r2"
    by (simp add: index_of_eq_iff)
  moreover have "\<exists>s t. trace (snd (invoke prog i w')) =
            trace w' @ CreateScope (injector_of i) (request_of i) s #
              OnFinish (response_of i) (EndScopeBound s) # GetService s (name_of i) # t"
    using invoke_trace [of prog i w'] by auto
  ultimately show ?thesis by blast
qed

theorem scope_identity_witness:
  "trace example_world = [] \<and>
   CreateScope 0 (Ref 0) (Scope 0 0) \<in>
     set (trace (run example_prog [Invoke example_invocation, Invoke example_invocation2] example_world)) \<and>
   CreateScope 0 (Ref 1) (Scope 0 1) \<in>
     set (trace (run example_prog [Invoke example_invocation, Invoke example_invocation2] example_world)) \<and>
   (Scope 0 0 = Scope 0 1) = (Ref 0 = Ref 1)"
proof -
  have a: "trace example_world = []"
    by (simp add: example_world_def)
  have t: "trace (run example_prog [Invoke example_invocation, Invoke example_invocation2] example_world) =
     [CreateScope 0 (Ref 0) (Scope 0 0),
      OnFinish (Ref 2) (EndScopeBound (Scope 0 0)),
      GetService (Scope 0 0) ''Counting'',
      Call (Ref 4) (Ref 5) [Ref 0, Ref 2, Ref 3],
      Returned Fulfilled,
      CreateScope 0 (Ref 1) (Scope 0 1),
      OnFinish (Ref 9) (EndScopeBound (Scope 0 1)),
      GetService (Scope 0 1) ''Plain'',
      Call (Ref 6) Undefined [Ref 1, Ref 9, Ref 3],
      Returned Fulfilled]"
    by (simp add: run_def example_invocation_def example_invocation2_def toInjectedHandler_def
        getHandler_def createScope_def on_finish_def getService_def Let_def case_prod_beta
        example_world_def example_services_def example_heap_def example_prog_def)
  have b: "CreateScope 0 (Ref 0) (Scope 0 0) \<in>
     set (trace (run example_prog [Invoke example_invocation, Invoke example_invocation2] example_world))"
    unfolding t by simp
  have c: "CreateScope 0 (Ref 1) (Scope 0 1) \<in>
     set (trace (run example_prog [Invoke example_invocation, Invoke example_invocation2] example_world))"
    unfolding t by simp
  have d: "(Scope 0 0 = Scope 0 1) = (Ref 0 = Ref 1)"
    by (rule scope_identity [OF a b c, THEN conjunct1])
  show ?thesis
    by (rule conjI [OF a conjI [OF b conjI [OF c d]]])
qed

end
